theory Spec2Isabelle
  imports Main "HOL-Library.Multiset"
begin

section \<open>Entity model (blog/models.py)\<close>

text \<open>
  Every model class is a record; the primary key that the ORM adds to each table is the
  field \<open>*_pk\<close>. Timestamps are integers (a point on the time line), a foreign key is
  the primary key of the row it refers to, and a nullable foreign key (\<open>null=True\<close>) is
  an \<open>option\<close>. A field \<open>f\<close> of model \<open>M\<close> is named \<open>m_f\<close>, since record fields
  share one name space.
\<close>

record user =
  user_pk :: nat
  username :: string

record category =
  category_pk :: nat
  category_is_published :: bool
  category_created_at :: int
  category_title :: string
  category_description :: string
  category_slug :: string

record post =
  post_pk :: nat
  post_is_published :: bool
  post_created_at :: int
  post_title :: string
  post_text :: string
  post_pub_date :: int
  post_author :: nat
  post_location :: "nat option"
  post_category :: "nat option"
  post_image :: string

record comment =
  comment_pk :: nat
  comment_text :: string
  comment_post :: nat
  comment_created_at :: int
  comment_author :: nat

text \<open>The relational store: one list of rows per table.\<close>

record store =
  users :: "user list"
  categories :: "category list"
  posts :: "post list"
  comments :: "comment list"

text \<open>
  The constraints the schema puts on a store: primary keys are unique, \<open>slug\<close> is
  declared \<open>unique=True\<close>, user names are unique, and every foreign key that is set
  refers to a row that exists.
\<close>

definition wf_store :: "store \<Rightarrow> bool" where
  "wf_store s \<longleftrightarrow>
     distinct (map user_pk (users s)) \<and>
     distinct (map username (users s)) \<and>
     distinct (map category_pk (categories s)) \<and>
     distinct (map category_slug (categories s)) \<and>
     distinct (map post_pk (posts s)) \<and>
     distinct (map comment_pk (comments s)) \<and>
     list_all (\<lambda>p. post_author p \<in> set (map user_pk (users s))) (posts s) \<and>
     list_all (\<lambda>p. case post_category p of None \<Rightarrow> True
                   | Some k \<Rightarrow> k \<in> set (map category_pk (categories s))) (posts s) \<and>
     list_all (\<lambda>c. comment_post c \<in> set (map post_pk (posts s))) (comments s) \<and>
     list_all (\<lambda>c. comment_author c \<in> set (map user_pk (users s))) (comments s)"

section \<open>Queries and their failures\<close>

datatype error = Http404 | AttributeError | DoesNotExist | MultipleObjectsReturned

text \<open>
  \<open>Model.objects.get(...)\<close>: the single row that matches, \<open>DoesNotExist\<close> when none
  does, \<open>MultipleObjectsReturned\<close> when several do.
\<close>

definition objects_get :: "('a \<Rightarrow> bool) \<Rightarrow> 'a list \<Rightarrow> error + 'a" where
  "objects_get P rows =
     (case filter P rows of
        [] \<Rightarrow> Inl DoesNotExist
      | [x] \<Rightarrow> Inr x
      | _ \<Rightarrow> Inl MultipleObjectsReturned)"

text \<open>\<open>get_object_or_404\<close> turns \<open>DoesNotExist\<close>, and only it, into \<open>Http404\<close>.\<close>

definition get_object_or_404 :: "('a \<Rightarrow> bool) \<Rightarrow> 'a list \<Rightarrow> error + 'a" where
  "get_object_or_404 P rows =
     (case objects_get P rows of
        Inl e \<Rightarrow> (if e = DoesNotExist then Inl Http404 else Inl e)
      | Inr x \<Rightarrow> Inr x)"

text \<open>
  The attribute \<open>post.category\<close>: \<open>None\<close> for a null foreign key, otherwise the row of
  the category table with that primary key.
\<close>

definition category_of :: "store \<Rightarrow> post \<Rightarrow> error + category option" where
  "category_of s p =
     (case post_category p of
        None \<Rightarrow> Inr None
      | Some k \<Rightarrow>
          (case objects_get (\<lambda>c. category_pk c = k) (categories s) of
             Inl e \<Rightarrow> Inl e
           | Inr c \<Rightarrow> Inr (Some c)))"

text \<open>The lookup \<open>category__is_published=True\<close>: a join, which a null key never matches.\<close>

definition category__is_published :: "store \<Rightarrow> post \<Rightarrow> bool" where
  "category__is_published s p =
     (case post_category p of
        None \<Rightarrow> False
      | Some k \<Rightarrow> list_ex (\<lambda>c. category_pk c = k \<and> category_is_published c) (categories s))"

text \<open>The lookup \<open>author__username=name\<close>.\<close>

definition author__username :: "store \<Rightarrow> string \<Rightarrow> post \<Rightarrow> bool" where
  "author__username s name p =
     list_ex (\<lambda>u. user_pk u = post_author p \<and> username u = name) (users s)"

text \<open>\<open>.annotate(comment_count=Count('comments'))\<close>: each post with the number of its comments.\<close>

definition comment_count :: "store \<Rightarrow> post \<Rightarrow> nat" where
  "comment_count s p = length (filter (\<lambda>c. comment_post c = post_pk p) (comments s))"

definition annotate :: "store \<Rightarrow> post list \<Rightarrow> (post \<times> nat) list" where
  "annotate s ps = map (\<lambda>p. (p, comment_count s p)) ps"

text \<open>\<open>.order_by('-pub_date')\<close> on annotated posts and \<open>.order_by('created_at')\<close> on comments.\<close>

definition order_by_minus_pub_date :: "(post \<times> nat) list \<Rightarrow> (post \<times> nat) list" where
  "order_by_minus_pub_date rows = sort_key (\<lambda>(p, n). - post_pub_date p) rows"

definition order_by_created_at :: "comment list \<Rightarrow> comment list" where
  "order_by_created_at rows = sort_key comment_created_at rows"

section \<open>Responses\<close>

type_synonym querydict = "(string \<times> string) list"
type_synonym form_errors = "(string \<times> string) list"

text \<open>
  A form as the templates see it: the instance it edits, the submitted data when it is
  bound, and the field-level messages of its validation.
\<close>

record 'a form =
  form_instance :: "'a option"
  form_data :: "querydict option"
  form_messages :: form_errors

datatype ctxval =
    PostV post
  | CommentV comment
  | CategoryV category
  | UserV user
  | CommentsV "comment list"
  | PageV "(post \<times> nat) list"
  | PostFormV "post form"
  | CommentFormV "comment form"

type_synonym template_context = "(string \<times> ctxval) list"

datatype route = Post_detail nat | Profile string | Login

datatype response = Redirect route | Render string template_context

section \<open>Read-only views (blog/views.py)\<close>

definition POSTS_ON_PAGE :: nat where
  "POSTS_ON_PAGE = 10"

text \<open>
  The page of a \<open>ListView\<close> with \<open>paginate_by = per_page\<close>: pages are numbered from 1,
  an empty list still has its first page, and a page outside the range is \<open>Http404\<close>.
\<close>

definition num_pages :: "nat \<Rightarrow> 'a list \<Rightarrow> nat" where
  "num_pages per_page object_list =
     (if object_list = [] then 1 else (length object_list + per_page - 1) div per_page)"

definition paginate :: "nat \<Rightarrow> 'a list \<Rightarrow> nat \<Rightarrow> error + 'a list" where
  "paginate per_page object_list number =
     (if number < 1 \<or> num_pages per_page object_list < number then Inl Http404
      else Inr (take per_page (drop ((number - 1) * per_page) object_list)))"

subsection \<open>PostListView\<close>

definition PostListView_paginate_by :: nat where
  "PostListView_paginate_by = POSTS_ON_PAGE"

definition PostListView_get_queryset :: "store \<Rightarrow> int \<Rightarrow> (post \<times> nat) list" where
  "PostListView_get_queryset s now =
     order_by_minus_pub_date
       (annotate s
          (filter (\<lambda>p. post_is_published p \<and> category__is_published s p \<and> post_pub_date p \<le> now)
             (posts s)))"

definition PostListView :: "store \<Rightarrow> int \<Rightarrow> nat \<Rightarrow> error + response" where
  "PostListView s now number =
     (case paginate PostListView_paginate_by (PostListView_get_queryset s now) number of
        Inl e \<Rightarrow> Inl e
      | Inr page \<Rightarrow> Inr (Render ''blog/index.html'' [(''page_obj'', PageV page)]))"

subsection \<open>PostDetailView\<close>

text \<open>
  \<open>request.user\<close> is \<open>None\<close> for an anonymous visitor. A model instance equals another
  when their primary keys agree, and never equals the anonymous user.
\<close>

definition is_user :: "nat \<Rightarrow> user option \<Rightarrow> bool" where
  "is_user k viewer = (case viewer of None \<Rightarrow> False | Some u \<Rightarrow> user_pk u = k)"

definition PostDetailView_get_object :: "store \<Rightarrow> int \<Rightarrow> user option \<Rightarrow> nat \<Rightarrow> error + post" where
  "PostDetailView_get_object s now viewer pk =
     (case get_object_or_404 (\<lambda>p. post_pk p = pk) (posts s) of
        Inl e \<Rightarrow> Inl e
      | Inr post_object \<Rightarrow>
          if \<not> is_user (post_author post_object) viewer then
            (case category_of s post_object of
               Inl e \<Rightarrow> Inl e
             | Inr None \<Rightarrow> Inl AttributeError
             | Inr (Some c) \<Rightarrow>
                 if category_is_published c
                    \<and> post_pub_date post_object \<le> now
                    \<and> post_is_published post_object
                 then Inr post_object
                 else Inl Http404)
          else Inr post_object)"

definition unbound_form :: "'a option \<Rightarrow> 'a form" where
  "unbound_form inst = \<lparr>form_instance = inst, form_data = None, form_messages = []\<rparr>"

definition PostDetailView_get_context_data :: "store \<Rightarrow> nat \<Rightarrow> post \<Rightarrow> template_context" where
  "PostDetailView_get_context_data s pk post_object =
     [(''post'', PostV post_object),
      (''form'', CommentFormV (unbound_form None)),
      (''comments'',
         CommentsV (order_by_created_at (filter (\<lambda>c. comment_post c = pk) (comments s))))]"

definition PostDetailView :: "store \<Rightarrow> int \<Rightarrow> user option \<Rightarrow> nat \<Rightarrow> error + response" where
  "PostDetailView s now viewer pk =
     (case PostDetailView_get_object s now viewer pk of
        Inl e \<Rightarrow> Inl e
      | Inr post_object \<Rightarrow>
          Inr (Render ''blog/detail.html'' (PostDetailView_get_context_data s pk post_object)))"

subsection \<open>CategoryPostListView\<close>

definition CategoryPostListView_get_queryset ::
  "store \<Rightarrow> int \<Rightarrow> string \<Rightarrow> error + (post \<times> nat) list" where
  "CategoryPostListView_get_queryset s now slug =
     (case get_object_or_404 (\<lambda>c. category_slug c = slug \<and> category_is_published c)
             (categories s) of
        Inl e \<Rightarrow> Inl e
      | Inr category \<Rightarrow>
          Inr (order_by_minus_pub_date
                 (annotate s
                    (filter (\<lambda>p. post_is_published p
                                 \<and> post_category p = Some (category_pk category)
                                 \<and> post_pub_date p \<le> now)
                       (posts s)))))"

text \<open>
  The view: the queryset first, then its page, then \<open>get_context_data\<close>, which reads
  the category again with \<open>Category.objects.get\<close>.
\<close>

definition CategoryPostListView :: "store \<Rightarrow> int \<Rightarrow> string \<Rightarrow> nat \<Rightarrow> error + response" where
  "CategoryPostListView s now slug number =
     (case CategoryPostListView_get_queryset s now slug of
        Inl e \<Rightarrow> Inl e
      | Inr object_list \<Rightarrow>
          (case paginate POSTS_ON_PAGE object_list number of
             Inl e \<Rightarrow> Inl e
           | Inr page \<Rightarrow>
               (case objects_get (\<lambda>c. category_slug c = slug) (categories s) of
                  Inl e \<Rightarrow> Inl e
                | Inr c \<Rightarrow>
                    Inr (Render ''blog/category.html''
                           [(''page_obj'', PageV page), (''category'', CategoryV c)]))))"

subsection \<open>ProfileListView\<close>

definition ProfileListView_get_queryset :: "store \<Rightarrow> string \<Rightarrow> (post \<times> nat) list" where
  "ProfileListView_get_queryset s name =
     order_by_minus_pub_date (annotate s (filter (author__username s name) (posts s)))"

definition ProfileListView :: "store \<Rightarrow> string \<Rightarrow> nat \<Rightarrow> error + response" where
  "ProfileListView s name number =
     (case paginate POSTS_ON_PAGE (ProfileListView_get_queryset s name) number of
        Inl e \<Rightarrow> Inl e
      | Inr page \<Rightarrow>
          (case get_object_or_404 (\<lambda>u. username u = name) (users s) of
             Inl e \<Rightarrow> Inl e
           | Inr u \<Rightarrow>
               Inr (Render ''blog/profile.html''
                      [(''page_obj'', PageV page), (''profile'', UserV u)])))"

section \<open>Forms (blog/forms.py)\<close>

text \<open>
  Checking the submitted values against the field constraints is the framework's work;
  it enters every view as a parameter, a function from the submitted data to either the
  field-level messages or the cleaned values. What forms.py decides is which fields a
  form has: a form reads the submitted data under the names of its own fields only.
\<close>

definition Post_editable_fields :: "string list" where
  "Post_editable_fields =
     [''is_published'', ''title'', ''text'', ''pub_date'', ''author'', ''location'',
      ''category'', ''image'']"

definition PostForm_exclude :: "string list" where
  "PostForm_exclude = [''author'']"

definition PostForm_fields :: "string list" where
  "PostForm_fields = filter (\<lambda>f. f \<notin> set PostForm_exclude) Post_editable_fields"

definition CommentForm_fields :: "string list" where
  "CommentForm_fields = [''text'']"

definition own_data :: "string list \<Rightarrow> querydict \<Rightarrow> querydict" where
  "own_data names data = filter (\<lambda>(k, v). k \<in> set names) data"

text \<open>The cleaned values of a post form: one per field of the form.\<close>

record post_cleaned =
  cleaned_is_published :: bool
  cleaned_title :: string
  cleaned_text :: string
  cleaned_pub_date :: int
  cleaned_location :: "nat option"
  cleaned_category :: "nat option"
  cleaned_image :: string

type_synonym post_validator = "querydict \<Rightarrow> form_errors + post_cleaned"
type_synonym comment_validator = "querydict \<Rightarrow> form_errors + string"

definition PostForm_clean :: "post_validator \<Rightarrow> querydict \<Rightarrow> form_errors + post_cleaned" where
  "PostForm_clean validate data = validate (own_data PostForm_fields data)"

definition CommentForm_clean :: "comment_validator \<Rightarrow> querydict \<Rightarrow> form_errors + string" where
  "CommentForm_clean validate data = validate (own_data CommentForm_fields data)"

definition bound_form :: "'a option \<Rightarrow> querydict \<Rightarrow> form_errors \<Rightarrow> 'a form" where
  "bound_form inst data msgs =
     \<lparr>form_instance = inst, form_data = Some data, form_messages = msgs\<rparr>"

section \<open>Writing to the store\<close>

definition next_pk :: "nat list \<Rightarrow> nat" where
  "next_pk pks = Suc (fold max pks 0)"

text \<open>
  Saving the instance of a valid post form. A new row gets a fresh primary key and
  \<open>created_at = now\<close> (\<open>auto_now_add\<close>); its author is the one the view has stored in
  \<open>form.instance.author\<close>.
\<close>

definition insert_post :: "store \<Rightarrow> int \<Rightarrow> nat \<Rightarrow> post_cleaned \<Rightarrow> store" where
  "insert_post s now author_pk cd =
     s\<lparr>posts := posts s @
        [\<lparr>post_pk = next_pk (map post_pk (posts s)),
          post_is_published = cleaned_is_published cd,
          post_created_at = now,
          post_title = cleaned_title cd,
          post_text = cleaned_text cd,
          post_pub_date = cleaned_pub_date cd,
          post_author = author_pk,
          post_location = cleaned_location cd,
          post_category = cleaned_category cd,
          post_image = cleaned_image cd\<rparr>]\<rparr>"

definition construct_instance :: "post \<Rightarrow> post_cleaned \<Rightarrow> post" where
  "construct_instance inst cd =
     inst\<lparr>post_is_published := cleaned_is_published cd,
          post_title := cleaned_title cd,
          post_text := cleaned_text cd,
          post_pub_date := cleaned_pub_date cd,
          post_location := cleaned_location cd,
          post_category := cleaned_category cd,
          post_image := cleaned_image cd\<rparr>"

definition update_post :: "store \<Rightarrow> post \<Rightarrow> store" where
  "update_post s p = s\<lparr>posts := map (\<lambda>q. if post_pk q = post_pk p then p else q) (posts s)\<rparr>"

text \<open>Deleting a post deletes its comments (\<open>on_delete=CASCADE\<close>).\<close>

definition delete_post :: "store \<Rightarrow> post \<Rightarrow> store" where
  "delete_post s p =
     s\<lparr>posts := filter (\<lambda>q. post_pk q \<noteq> post_pk p) (posts s),
       comments := filter (\<lambda>c. comment_post c \<noteq> post_pk p) (comments s)\<rparr>"

definition insert_comment :: "store \<Rightarrow> int \<Rightarrow> string \<Rightarrow> nat \<Rightarrow> nat \<Rightarrow> store" where
  "insert_comment s now txt author_pk post_pk' =
     s\<lparr>comments := comments s @
        [\<lparr>comment_pk = next_pk (map comment_pk (comments s)),
          comment_text = txt,
          comment_post = post_pk',
          comment_created_at = now,
          comment_author = author_pk\<rparr>]\<rparr>"

definition update_comment :: "store \<Rightarrow> comment \<Rightarrow> store" where
  "update_comment s c =
     s\<lparr>comments := map (\<lambda>d. if comment_pk d = comment_pk c then c else d) (comments s)\<rparr>"

definition delete_comment_row :: "store \<Rightarrow> comment \<Rightarrow> store" where
  "delete_comment_row s c =
     s\<lparr>comments := filter (\<lambda>d. comment_pk d \<noteq> comment_pk c) (comments s)\<rparr>"

section \<open>Views that write (blog/views.py)\<close>

datatype http_method = GET | POST

record request =
  request_user :: "user option"
  request_method :: http_method
  request_POST :: querydict

type_synonym outcome = "error + response \<times> store"

text \<open>
  \<open>LoginRequiredMixin\<close> and \<open>@login_required\<close>: an anonymous visitor is sent to the
  login page and the view behind the gate does not run.
\<close>

definition login_required :: "(user \<Rightarrow> store \<Rightarrow> outcome) \<Rightarrow> request \<Rightarrow> store \<Rightarrow> outcome" where
  "login_required view r s =
     (case request_user r of
        None \<Rightarrow> Inr (Redirect Login, s)
      | Some u \<Rightarrow> view u s)"

subsection \<open>Posts\<close>

text \<open>
  \<open>DispatchPostMixin.dispatch\<close>: \<open>super_dispatch\<close> is the rest of the method
  resolution order, the generic view itself.
\<close>

definition DispatchPostMixin_dispatch ::
  "(store \<Rightarrow> outcome) \<Rightarrow> request \<Rightarrow> nat \<Rightarrow> store \<Rightarrow> outcome" where
  "DispatchPostMixin_dispatch super_dispatch r pk s =
     (case get_object_or_404 (\<lambda>p. post_pk p = pk) (posts s) of
        Inl e \<Rightarrow> Inl e
      | Inr inst \<Rightarrow>
          if \<not> is_user (post_author inst) (request_user r)
          then Inr (Redirect (Post_detail pk), s)
          else super_dispatch s)"

definition PostCreateView :: "post_validator \<Rightarrow> int \<Rightarrow> request \<Rightarrow> store \<Rightarrow> outcome" where
  "PostCreateView validate now r =
     login_required (\<lambda>u s.
       case request_method r of
         GET \<Rightarrow> Inr (Render ''blog/create.html'' [(''form'', PostFormV (unbound_form None))], s)
       | POST \<Rightarrow>
           (case PostForm_clean validate (request_POST r) of
              Inl msgs \<Rightarrow>
                Inr (Render ''blog/create.html''
                       [(''form'', PostFormV (bound_form None (request_POST r) msgs))], s)
            | Inr cd \<Rightarrow>
                Inr (Redirect (Profile (username u)), insert_post s now (user_pk u) cd))) r"

definition UpdateView_Post :: "post_validator \<Rightarrow> request \<Rightarrow> nat \<Rightarrow> store \<Rightarrow> outcome" where
  "UpdateView_Post validate r pk s =
     (case get_object_or_404 (\<lambda>p. post_pk p = pk) (posts s) of
        Inl e \<Rightarrow> Inl e
      | Inr obj \<Rightarrow>
          (case request_method r of
             GET \<Rightarrow>
               Inr (Render ''blog/create.html''
                      [(''form'', PostFormV (unbound_form (Some obj)))], s)
           | POST \<Rightarrow>
               (case PostForm_clean validate (request_POST r) of
                  Inl msgs \<Rightarrow>
                    Inr (Render ''blog/create.html''
                           [(''form'', PostFormV (bound_form (Some obj) (request_POST r) msgs))],
                         s)
                | Inr cd \<Rightarrow>
                    Inr (Redirect (Post_detail (post_pk obj)),
                         update_post s (construct_instance obj cd)))))"

definition PostUpdateView :: "post_validator \<Rightarrow> request \<Rightarrow> nat \<Rightarrow> store \<Rightarrow> outcome" where
  "PostUpdateView validate r pk =
     login_required (\<lambda>u. DispatchPostMixin_dispatch (UpdateView_Post validate r pk) r pk) r"

text \<open>
  The generic delete view: a GET shows the confirmation page, to which
  \<open>PostDeleteView.get_context_data\<close> adds the form of the post; a POST deletes the post.
\<close>

definition DeleteView_Post :: "user \<Rightarrow> request \<Rightarrow> nat \<Rightarrow> store \<Rightarrow> outcome" where
  "DeleteView_Post u r pk s =
     (case get_object_or_404 (\<lambda>p. post_pk p = pk) (posts s) of
        Inl e \<Rightarrow> Inl e
      | Inr obj \<Rightarrow>
          (case request_method r of
             GET \<Rightarrow>
               Inr (Render ''blog/create.html''
                      [(''object'', PostV obj),
                       (''form'', PostFormV (unbound_form (Some obj)))], s)
           | POST \<Rightarrow> Inr (Redirect (Profile (username u)), delete_post s obj)))"

definition PostDeleteView :: "request \<Rightarrow> nat \<Rightarrow> store \<Rightarrow> outcome" where
  "PostDeleteView r pk =
     login_required (\<lambda>u. DispatchPostMixin_dispatch (DeleteView_Post u r pk) r pk) r"

subsection \<open>Comments\<close>

text \<open>
  \<open>CommentCreateView.dispatch\<close> looks the post up before the login gate of
  \<open>LoginRequiredMixin\<close> runs.
\<close>

definition CommentCreateView ::
  "comment_validator \<Rightarrow> int \<Rightarrow> request \<Rightarrow> nat \<Rightarrow> store \<Rightarrow> outcome" where
  "CommentCreateView validate now r post_id s =
     (case get_object_or_404 (\<lambda>p. post_pk p = post_id) (posts s) of
        Inl e \<Rightarrow> Inl e
      | Inr post_object \<Rightarrow>
          login_required (\<lambda>u s.
            case request_method r of
              GET \<Rightarrow>
                Inr (Render ''blog/comment.html''
                       [(''form'', CommentFormV (unbound_form None))], s)
            | POST \<Rightarrow>
                (case CommentForm_clean validate (request_POST r) of
                   Inl msgs \<Rightarrow>
                     Inr (Render ''blog/comment.html''
                            [(''form'', CommentFormV (bound_form None (request_POST r) msgs))],
                          s)
                 | Inr txt \<Rightarrow>
                     Inr (Redirect (Post_detail post_id),
                          insert_comment s now txt (user_pk u) (post_pk post_object)))) r s)"

definition add_comment ::
  "comment_validator \<Rightarrow> int \<Rightarrow> request \<Rightarrow> nat \<Rightarrow> store \<Rightarrow> outcome" where
  "add_comment validate now r post_id =
     login_required (\<lambda>u s.
       case get_object_or_404 (\<lambda>p. post_pk p = post_id) (posts s) of
         Inl e \<Rightarrow> Inl e
       | Inr post' \<Rightarrow>
           (case CommentForm_clean validate (request_POST r) of
              Inl msgs \<Rightarrow> Inr (Redirect (Post_detail post_id), s)
            | Inr txt \<Rightarrow>
                Inr (Redirect (Post_detail post_id),
                     insert_comment s now txt (user_pk u) (post_pk post')))) r"

text \<open>
  \<open>CommentForm(request.POST or None, instance=instance)\<close>: with no submitted data the
  form is unbound, and an unbound form is not valid.
\<close>

definition edit_comment ::
  "comment_validator \<Rightarrow> request \<Rightarrow> nat \<Rightarrow> nat \<Rightarrow> store \<Rightarrow> outcome" where
  "edit_comment validate r post_id comment_id =
     login_required (\<lambda>u s.
       case get_object_or_404 (\<lambda>c. comment_pk c = comment_id \<and> comment_post c = post_id)
              (comments s) of
         Inl e \<Rightarrow> Inl e
       | Inr inst \<Rightarrow>
           if user_pk u \<noteq> comment_author inst then Inr (Redirect (Post_detail post_id), s)
           else if request_POST r = [] then
             Inr (Render ''blog/comment.html''
                    [(''form'', CommentFormV (unbound_form (Some inst))),
                     (''comment'', CommentV inst)], s)
           else
             (case CommentForm_clean validate (request_POST r) of
                Inl msgs \<Rightarrow>
                  Inr (Render ''blog/comment.html''
                         [(''form'', CommentFormV (bound_form (Some inst) (request_POST r) msgs)),
                          (''comment'', CommentV inst)], s)
              | Inr txt \<Rightarrow>
                  Inr (Redirect (Post_detail post_id),
                       update_comment s (inst\<lparr>comment_text := txt\<rparr>)))) r"

definition delete_comment :: "request \<Rightarrow> nat \<Rightarrow> nat \<Rightarrow> store \<Rightarrow> outcome" where
  "delete_comment r post_id comment_id =
     login_required (\<lambda>u s.
       case get_object_or_404 (\<lambda>c. comment_pk c = comment_id \<and> comment_post c = post_id)
              (comments s) of
         Inl e \<Rightarrow> Inl e
       | Inr inst \<Rightarrow>
           if user_pk u \<noteq> comment_author inst then Inr (Redirect (Post_detail post_id), s)
           else if request_method r = POST then
             Inr (Redirect (Post_detail post_id), delete_comment_row s inst)
           else Inr (Render ''blog/comment.html'' [(''comment'', CommentV inst)], s)) r"

section \<open>A store to run the views on\<close>

definition alice :: user where
  "alice = \<lparr>user_pk = 1, username = ''alice''\<rparr>"

definition bob :: user where
  "bob = \<lparr>user_pk = 2, username = ''bob''\<rparr>"

definition travel :: category where
  "travel = \<lparr>category_pk = 1, category_is_published = True, category_created_at = 0,
     category_title = ''Travel'', category_description = ''On the road'',
     category_slug = ''travel''\<rparr>"

definition drafts :: category where
  "drafts = \<lparr>category_pk = 2, category_is_published = False, category_created_at = 0,
     category_title = ''Drafts'', category_description = ''Not yet'',
     category_slug = ''drafts''\<rparr>"

definition mk_post :: "nat \<Rightarrow> bool \<Rightarrow> int \<Rightarrow> nat \<Rightarrow> nat option \<Rightarrow> post" where
  "mk_post k pub d a c =
     \<lparr>post_pk = k, post_is_published = pub, post_created_at = 0, post_title = ''t'',
      post_text = ''x'', post_pub_date = d, post_author = a, post_location = None,
      post_category = c, post_image = []\<rparr>"

definition mk_comment :: "nat \<Rightarrow> nat \<Rightarrow> int \<Rightarrow> nat \<Rightarrow> comment" where
  "mk_comment k p t a =
     \<lparr>comment_pk = k, comment_text = ''hi'', comment_post = p, comment_created_at = t,
      comment_author = a\<rparr>"

text \<open>
  Post 1 is public, 2 is unpublished, 3 has lost its category, 4 is in a hidden category,
  5 is dated after \<open>now = 500\<close>, 6 is unpublished and has no category, 7 is public.
\<close>

definition blog :: store where
  "blog =
     \<lparr>users = [alice, bob],
      categories = [travel, drafts],
      posts =
        [mk_post 1 True 100 1 (Some 1),
         mk_post 2 False 50 1 (Some 1),
         mk_post 3 True 20 1 None,
         mk_post 4 True 30 2 (Some 2),
         mk_post 5 True 900 2 (Some 1),
         mk_post 6 False 10 1 None,
         mk_post 7 True 200 2 (Some 1)],
      comments = [mk_comment 1 1 120 2, mk_comment 2 1 110 1, mk_comment 3 7 300 1]\<rparr>"

text \<open>Two validators to run the forms with: a required text, a required title.\<close>

definition required_text :: comment_validator where
  "required_text data =
     (case map_of data ''text'' of
        None \<Rightarrow> Inl [(''text'', ''This field is required.'')]
      | Some v \<Rightarrow> if v = [] then Inl [(''text'', ''This field is required.'')] else Inr v)"

definition required_title :: post_validator where
  "required_title data =
     (case map_of data ''title'' of
        None \<Rightarrow> Inl [(''title'', ''This field is required.'')]
      | Some v \<Rightarrow>
          Inr \<lparr>cleaned_is_published = True, cleaned_title = v, cleaned_text = [],
               cleaned_pub_date = 0, cleaned_location = None, cleaned_category = Some 1,
               cleaned_image = []\<rparr>)"

definition mk_request :: "user option \<Rightarrow> http_method \<Rightarrow> querydict \<Rightarrow> request" where
  "mk_request u m d = \<lparr>request_user = u, request_method = m, request_POST = d\<rparr>"

definition hello :: post_cleaned where
  "hello = \<lparr>cleaned_is_published = True, cleaned_title = ''Hello'', cleaned_text = [],
            cleaned_pub_date = 0, cleaned_location = None, cleaned_category = Some 1,
            cleaned_image = []\<rparr>"

section \<open>Lookups in a store that meets the constraints\<close>

lemma filter_key_distinct:
  "distinct (map f xs) \<Longrightarrow> x \<in> set xs \<Longrightarrow> filter (\<lambda>y. f y = f x) xs = [x]"
proof (induction xs)
  case Nil
  then show ?case by simp
next
  case (Cons a xs)
  show ?case
  proof (cases "x = a")
    case True
    from Cons.prems have "f a \<notin> f ` set xs" by simp
    then have "\<forall>y\<in>set xs. f y \<noteq> f a" by (metis imageI)
    then have "filter (\<lambda>y. f y = f a) xs = []" by (simp add: filter_empty_conv)
    with True show ?thesis by simp
  next
    case False
    with Cons.prems have x: "x \<in> set xs" and d: "distinct (map f xs)" by auto
    from Cons.prems have "f a \<notin> f ` set xs" by simp
    with x have "f a \<noteq> f x" by (metis imageI)
    with Cons.IH [OF d x] show ?thesis by simp
  qed
qed

lemma objects_get_key:
  "distinct (map f xs) \<Longrightarrow> x \<in> set xs \<Longrightarrow> objects_get (\<lambda>y. f y = f x) xs = Inr x"
  by (simp add: objects_get_def filter_key_distinct)

lemma objects_get_none:
  "objects_get P xs = Inl DoesNotExist \<longleftrightarrow> (\<forall>x\<in>set xs. \<not> P x)"
proof (cases "filter P xs")
  case Nil
  then show ?thesis by (simp add: objects_get_def filter_empty_conv)
next
  case (Cons a as)
  then have "a \<in> set (filter P xs)" by simp
  then have "\<exists>x\<in>set xs. P x" by auto
  moreover from Cons have "objects_get P xs \<noteq> Inl DoesNotExist"
    by (cases as) (simp_all add: objects_get_def)
  ultimately show ?thesis by blast
qed

lemma objects_get_not_404: "objects_get P xs \<noteq> Inl Http404"
  by (simp add: objects_get_def split: list.splits)

lemma get_object_or_404_none:
  "get_object_or_404 P xs = Inl Http404 \<longleftrightarrow> (\<forall>x\<in>set xs. \<not> P x)"
proof -
  have "get_object_or_404 P xs = Inl Http404 \<longleftrightarrow> objects_get P xs = Inl DoesNotExist"
    using objects_get_not_404 [of P xs]
    by (cases "objects_get P xs") (auto simp: get_object_or_404_def)
  then show ?thesis by (simp add: objects_get_none)
qed

lemma get_object_or_404_key:
  "distinct (map f xs) \<Longrightarrow> x \<in> set xs \<Longrightarrow> get_object_or_404 (\<lambda>y. f y = f x) xs = Inr x"
  by (simp add: get_object_or_404_def objects_get_key)

lemma objects_get_Inr:
  "objects_get P xs = Inr x \<Longrightarrow> x \<in> set xs \<and> P x"
proof -
  assume "objects_get P xs = Inr x"
  then have "filter P xs = [x]"
    by (auto simp: objects_get_def split: list.splits)
  then have "x \<in> set (filter P xs)" by simp
  then show ?thesis by simp
qed

lemma get_object_or_404_Inr:
  "get_object_or_404 P xs = Inr x \<Longrightarrow> x \<in> set xs \<and> P x"
  by (auto simp: get_object_or_404_def split: sum.splits if_splits dest: objects_get_Inr)

lemma sorted_minus_desc:
  fixes f :: "'a \<Rightarrow> int"
  shows "sorted (map (\<lambda>x. - f x) xs) \<Longrightarrow> sorted_wrt (\<lambda>a b. b \<le> a) (map f xs)"
  by (simp add: sorted_wrt_map)

lemma order_by_minus_pub_date_sorted:
  "sorted_wrt (\<lambda>a b. b \<le> a) (map (\<lambda>row. post_pub_date (fst row)) (order_by_minus_pub_date rows))"
proof -
  have "sorted (map (\<lambda>row. - post_pub_date (fst row)) (order_by_minus_pub_date rows))"
  proof -
    have eq: "(\<lambda>(p, n). - post_pub_date p) = (\<lambda>row :: post \<times> nat. - post_pub_date (fst row))"
      by (simp add: fun_eq_iff)
    show ?thesis
      unfolding order_by_minus_pub_date_def eq by (rule sorted_sort_key)
  qed
  then show ?thesis by (rule sorted_minus_desc)
qed

lemma order_by_minus_pub_date_mset:
  "mset (order_by_minus_pub_date rows) = mset rows"
  by (simp add: order_by_minus_pub_date_def)

lemma order_by_minus_pub_date_set:
  "set (order_by_minus_pub_date rows) = set rows"
  by (simp add: order_by_minus_pub_date_def)

lemma map_fst_annotate: "map fst (annotate s ps) = ps"
  by (simp add: annotate_def comp_def)

lemma feed_posts:
  "mset (map fst (order_by_minus_pub_date (annotate s ps))) = mset ps"
proof -
  have "mset (map fst (order_by_minus_pub_date (annotate s ps)))
        = image_mset fst (mset (order_by_minus_pub_date (annotate s ps)))"
    by simp
  also have "\<dots> = image_mset fst (mset (annotate s ps))"
    by (simp only: order_by_minus_pub_date_mset)
  also have "\<dots> = mset (map fst (annotate s ps))" by simp
  finally show ?thesis by (simp only: map_fst_annotate)
qed

lemma feed_counts:
  "row \<in> set (order_by_minus_pub_date (annotate s ps)) \<Longrightarrow> snd row = comment_count s (fst row)"
  by (auto simp: order_by_minus_pub_date_set annotate_def)

lemma category_join:
  assumes "distinct (map category_pk (categories s))"
  shows "category__is_published s p
         \<longleftrightarrow> (\<exists>c. category_of s p = Inr (Some c) \<and> category_is_published c)"
proof (cases "post_category p")
  case None
  then show ?thesis by (simp add: category__is_published_def category_of_def)
next
  case (Some k)
  show ?thesis
  proof
    assume "category__is_published s p"
    with Some obtain c where c: "c \<in> set (categories s)" "category_pk c = k"
      "category_is_published c"
      by (auto simp: category__is_published_def list_ex_iff)
    from objects_get_key [OF assms c(1)] c(2)
    have "objects_get (\<lambda>y. category_pk y = k) (categories s) = Inr c" by simp
    with Some c(3) show "\<exists>c. category_of s p = Inr (Some c) \<and> category_is_published c"
      by (simp add: category_of_def)
  next
    assume "\<exists>c. category_of s p = Inr (Some c) \<and> category_is_published c"
    then obtain c where c: "category_of s p = Inr (Some c)" "category_is_published c" by blast
    from c(1) Some have "objects_get (\<lambda>y. category_pk y = k) (categories s) = Inr c"
      by (auto simp: category_of_def split: sum.splits)
    then have "c \<in> set (categories s) \<and> category_pk c = k" by (rule objects_get_Inr)
    with Some c(2) show "category__is_published s p"
      by (auto simp: category__is_published_def list_ex_iff)
  qed
qed

lemma wf_store_posts: "wf_store s \<Longrightarrow> distinct (map post_pk (posts s))"
  by (simp add: wf_store_def)

lemma wf_store_categories: "wf_store s \<Longrightarrow> distinct (map category_pk (categories s))"
  by (simp add: wf_store_def)

lemma wf_store_slugs: "wf_store s \<Longrightarrow> distinct (map category_slug (categories s))"
  by (simp add: wf_store_def)

lemma wf_store_usernames: "wf_store s \<Longrightarrow> distinct (map username (users s))"
  by (simp add: wf_store_def)

lemma wf_store_comments: "wf_store s \<Longrightarrow> distinct (map comment_pk (comments s))"
  by (simp add: wf_store_def)

lemma get_post: "wf_store s \<Longrightarrow> p \<in> set (posts s) \<Longrightarrow>
    get_object_or_404 (\<lambda>q. post_pk q = post_pk p) (posts s) = Inr p"
  by (rule get_object_or_404_key [OF wf_store_posts])

lemma get_object_author:
  assumes "get_object_or_404 (\<lambda>p. post_pk p = pk) (posts s) = Inr p"
    and "is_user (post_author p) viewer"
  shows "PostDetailView_get_object s now viewer pk = Inr p"
  using assms by (simp add: PostDetailView_get_object_def)

lemma get_object_other:
  assumes "get_object_or_404 (\<lambda>p. post_pk p = pk) (posts s) = Inr p"
    and "\<not> is_user (post_author p) viewer"
    and "category_of s p = Inr (Some c)"
  shows "PostDetailView_get_object s now viewer pk =
           (if category_is_published c \<and> post_pub_date p \<le> now \<and> post_is_published p
            then Inr p else Inl Http404)"
  using assms by (simp add: PostDetailView_get_object_def)

lemma get_object_no_category:
  assumes "get_object_or_404 (\<lambda>p. post_pk p = pk) (posts s) = Inr p"
    and "\<not> is_user (post_author p) viewer"
    and "post_category p = None"
  shows "PostDetailView_get_object s now viewer pk = Inl AttributeError"
  using assms by (simp add: PostDetailView_get_object_def category_of_def)

lemma anonymous_sees:
  assumes "wf_store s" and "p \<in> set (posts s)"
  shows "PostDetailView_get_object s now None (post_pk p) = Inr p
         \<longleftrightarrow> post_is_published p \<and> category__is_published s p \<and> post_pub_date p \<le> now"
proof -
  have g: "get_object_or_404 (\<lambda>q. post_pk q = post_pk p) (posts s) = Inr p"
    using assms by (rule get_post)
  have "PostDetailView_get_object s now None (post_pk p) = Inr p
        \<longleftrightarrow> (\<exists>c. category_of s p = Inr (Some c) \<and> category_is_published c)
            \<and> post_pub_date p \<le> now \<and> post_is_published p"
    by (cases "category_of s p")
       (auto simp: PostDetailView_get_object_def g is_user_def split: option.splits)
  then show ?thesis
    using category_join [OF wf_store_categories [OF assms(1)], of p] by auto
qed

lemma paginate_length: "paginate n xs k = Inr page \<Longrightarrow> length page \<le> n"
  by (auto simp: paginate_def split: if_splits)

lemma get_comment:
  assumes "wf_store s" and "c \<in> set (comments s)"
  shows "get_object_or_404 (\<lambda>d. comment_pk d = comment_pk c \<and> comment_post d = comment_post c)
           (comments s) = Inr c"
proof -
  have "filter (\<lambda>d. comment_pk d = comment_pk c) (comments s) = [c]"
    using wf_store_comments [OF assms(1)] assms(2) by (rule filter_key_distinct)
  moreover have "filter (\<lambda>d. comment_pk d = comment_pk c \<and> comment_post d = comment_post c)
      (comments s)
    = filter (\<lambda>d. comment_post d = comment_post c)
        (filter (\<lambda>d. comment_pk d = comment_pk c) (comments s))"
    by (simp add: conj_commute)
  ultimately have "filter (\<lambda>d. comment_pk d = comment_pk c \<and> comment_post d = comment_post c)
      (comments s) = [c]"
    by simp
  then show ?thesis by (simp add: get_object_or_404_def objects_get_def)
qed

lemma author_join:
  assumes "distinct (map username (users s))" and "u \<in> set (users s)"
  shows "author__username s (username u) p \<longleftrightarrow> post_author p = user_pk u"
proof
  assume "author__username s (username u) p"
  then obtain v where v: "v \<in> set (users s)" "user_pk v = post_author p" "username v = username u"
    by (auto simp: author__username_def list_ex_iff)
  from assms(1) v(1) assms(2) v(3) have "v = u"
    by (simp add: distinct_map inj_on_def)
  with v(2) show "post_author p = user_pk u" by simp
next
  assume "post_author p = user_pk u"
  with assms(2) show "author__username s (username u) p"
    by (auto simp: author__username_def list_ex_iff)
qed

lemma get_user:
  "wf_store s \<Longrightarrow> u \<in> set (users s) \<Longrightarrow>
     get_object_or_404 (\<lambda>v. username v = username u) (users s) = Inr u"
  by (rule get_object_or_404_key [OF wf_store_usernames])

lemma paginate_first: "0 < n \<Longrightarrow> paginate n xs (Suc 0) = Inr (take n xs)"
  by (cases xs) (simp_all add: paginate_def num_pages_def div_greater_zero_iff)

lemma paginate_cases: "paginate n xs k = Inl e \<Longrightarrow> e = Http404"
  by (simp add: paginate_def split: if_splits)

lemma get_category_published:
  assumes "wf_store s" and "c \<in> set (categories s)" and "category_is_published c"
  shows "get_object_or_404 (\<lambda>d. category_slug d = category_slug c \<and> category_is_published d)
           (categories s) = Inr c"
proof -
  have "filter (\<lambda>d. category_slug d = category_slug c) (categories s) = [c]"
    using wf_store_slugs [OF assms(1)] assms(2) by (rule filter_key_distinct)
  moreover have "filter (\<lambda>d. category_slug d = category_slug c \<and> category_is_published d)
      (categories s)
    = filter category_is_published
        (filter (\<lambda>d. category_slug d = category_slug c) (categories s))"
    by (simp add: conj_commute)
  ultimately have "filter (\<lambda>d. category_slug d = category_slug c \<and> category_is_published d)
      (categories s) = [c]"
    using assms(3) by simp
  then show ?thesis by (simp add: get_object_or_404_def objects_get_def)
qed

lemma comment_lookup_none:
  assumes "distinct (map comment_pk (comments s))"
  shows "(\<forall>c\<in>set (comments s). \<not> (comment_pk c = comment_id \<and> comment_post c = post_id))
     \<longleftrightarrow> comment_id \<notin> comment_pk ` set (comments s)
         \<or> (\<exists>c\<in>set (comments s). comment_pk c = comment_id \<and> comment_post c \<noteq> post_id)"
proof
  assume "\<forall>c\<in>set (comments s). \<not> (comment_pk c = comment_id \<and> comment_post c = post_id)"
  then show "comment_id \<notin> comment_pk ` set (comments s)
         \<or> (\<exists>c\<in>set (comments s). comment_pk c = comment_id \<and> comment_post c \<noteq> post_id)"
    by blast
next
  assume r: "comment_id \<notin> comment_pk ` set (comments s)
         \<or> (\<exists>c\<in>set (comments s). comment_pk c = comment_id \<and> comment_post c \<noteq> post_id)"
  show "\<forall>c\<in>set (comments s). \<not> (comment_pk c = comment_id \<and> comment_post c = post_id)"
  proof (intro ballI notI)
    fix d assume d: "d \<in> set (comments s)" "comment_pk d = comment_id \<and> comment_post d = post_id"
    then have "comment_id \<in> comment_pk ` set (comments s)" by blast
    with r obtain c where c: "c \<in> set (comments s)" "comment_pk c = comment_id"
      "comment_post c \<noteq> post_id" by blast
    from assms c(1) d(1) c(2) d(2) have "c = d"
      by (simp add: distinct_map inj_on_def)
    with c(3) d(2) show False by simp
  qed
qed

lemma edit_comment_404:
  assumes "request_user r = Some u"
  shows "edit_comment validate r post_id comment_id s = Inl Http404
     \<longleftrightarrow> get_object_or_404 (\<lambda>c. comment_pk c = comment_id \<and> comment_post c = post_id)
           (comments s) = Inl Http404"
  by (cases "get_object_or_404 (\<lambda>c. comment_pk c = comment_id \<and> comment_post c = post_id)
           (comments s)")
     (simp_all add: edit_comment_def login_required_def assms split: sum.splits)

lemma delete_comment_404:
  assumes "request_user r = Some u"
  shows "delete_comment r post_id comment_id s = Inl Http404
     \<longleftrightarrow> get_object_or_404 (\<lambda>c. comment_pk c = comment_id \<and> comment_post c = post_id)
           (comments s) = Inl Http404"
  by (cases "get_object_or_404 (\<lambda>c. comment_pk c = comment_id \<and> comment_post c = post_id)
           (comments s)")
     (simp_all add: delete_comment_def login_required_def assms)

lemma own_data_foreign: "k \<notin> set names \<Longrightarrow> own_data names ((k, v) # data) = own_data names data"
  by (simp add: own_data_def)

section \<open>The detail view\<close>

text \<open>
  Claim C1, the post-detail operation: the author gets the post whatever its flags; anyone
  else gets it iff its category is published, its \<open>pub_date\<close> is not after now and it is
  published, and gets Not-Found otherwise. The lemmas \<open>get_object_author\<close> and
  \<open>get_object_other\<close> above show this for every post that has a category. For a post
  without one the operation ends in neither way: post 6 of \<open>blog\<close> is unpublished and
  has no category, and for bob, who is not its author, \<open>get_object\<close> raises
  \<open>AttributeError\<close> instead of Not-Found.
\<close>

theorem detail_unpublished_without_category:
  "PostDetailView_get_object blog 500 (Some bob) 6 = Inl AttributeError"
  by code_simp

text \<open>
  Claim C2, a post whose category is null: the check for a viewer who is not the author
  should not raise, and should let the post through when it is published and its
  \<open>pub_date\<close> is not after now. Post 3 of \<open>blog\<close> is such a post (its author alice is
  given it), yet for an anonymous visitor the check raises \<open>AttributeError\<close>; lemma
  \<open>get_object_no_category\<close> above shows that it does so for every such post.
\<close>

theorem detail_published_without_category:
  "PostDetailView_get_object blog 500 (Some alice) 3 = Inr (mk_post 3 True 20 1 None)
   \<and> PostDetailView_get_object blog 500 None 3 = Inl AttributeError"
  by code_simp

text \<open>
  Claim C9, the comments of the detail view: whenever the view answers, the comment list
  of its context holds exactly the comments of the post shown, oldest first.
\<close>

theorem detail_comments:
  assumes "PostDetailView s now viewer pk = Inr resp"
  shows "\<exists>p cs. resp = Render ''blog/detail.html''
                  [(''post'', PostV p), (''form'', CommentFormV (unbound_form None)),
                   (''comments'', CommentsV cs)]
           \<and> p \<in> set (posts s) \<and> post_pk p = pk
           \<and> mset cs = mset (filter (\<lambda>c. comment_post c = post_pk p) (comments s))
           \<and> sorted (map comment_created_at cs)"
proof -
  from assms obtain p where p: "PostDetailView_get_object s now viewer pk = Inr p"
    and r: "resp = Render ''blog/detail.html'' (PostDetailView_get_context_data s pk p)"
    by (auto simp: PostDetailView_def split: sum.splits)
  from p have "get_object_or_404 (\<lambda>q. post_pk q = pk) (posts s) = Inr p"
    by (auto simp: PostDetailView_get_object_def split: sum.splits if_splits option.splits)
  then have "p \<in> set (posts s) \<and> post_pk p = pk" by (rule get_object_or_404_Inr)
  moreover have "sorted (map comment_created_at
      (order_by_created_at (filter (\<lambda>c. comment_post c = pk) (comments s))))"
    unfolding order_by_created_at_def by (rule sorted_sort_key)
  moreover have "mset (order_by_created_at (filter (\<lambda>c. comment_post c = pk) (comments s)))
      = mset (filter (\<lambda>c. comment_post c = pk) (comments s))"
    by (simp add: order_by_created_at_def)
  ultimately show ?thesis
    using r by (simp add: PostDetailView_get_context_data_def)
qed

theorem detail_comments_witness:
  "PostDetailView blog 500 None 1
     = Inr (Render ''blog/detail.html''
         [(''post'', PostV (mk_post 1 True 100 1 (Some 1))),
          (''form'', CommentFormV (unbound_form None)),
          (''comments'', CommentsV [mk_comment 2 1 110 1, mk_comment 1 1 120 2])])
   \<and> sorted (map comment_created_at [mk_comment 2 1 110 1, mk_comment 1 1 120 2])"
proof -
  have h: "PostDetailView blog 500 None 1
     = Inr (Render ''blog/detail.html''
         [(''post'', PostV (mk_post 1 True 100 1 (Some 1))),
          (''form'', CommentFormV (unbound_form None)),
          (''comments'', CommentsV [mk_comment 2 1 110 1, mk_comment 1 1 120 2])])"
    by code_simp
  from detail_comments [OF h]
  have "sorted (map comment_created_at [mk_comment 2 1 110 1, mk_comment 1 1 120 2])"
    by auto
  with h show ?thesis by simp
qed

section \<open>The feeds\<close>

text \<open>
  Claim C3, the global feed: in every store that meets the schema's constraints and at
  every instant, the feed holds exactly the posts that are published, whose category is
  published and whose \<open>pub_date\<close> is not after now, which are exactly the posts an
  anonymous visitor is given by the detail view; each comes with the number of its
  comments, the order is \<open>pub_date\<close> descending, and a page holds at most 10 rows.
\<close>

theorem global_feed:
  assumes "wf_store s"
  shows "mset (map fst (PostListView_get_queryset s now))
           = mset (filter (\<lambda>p. post_is_published p
                     \<and> (\<exists>c. category_of s p = Inr (Some c) \<and> category_is_published c)
                     \<and> post_pub_date p \<le> now) (posts s))
       \<and> (\<forall>p\<in>set (posts s). p \<in> fst ` set (PostListView_get_queryset s now)
             \<longleftrightarrow> PostDetailView_get_object s now None (post_pk p) = Inr p)
       \<and> (\<forall>row\<in>set (PostListView_get_queryset s now). snd row = comment_count s (fst row))
       \<and> sorted_wrt (\<lambda>a b. b \<le> a)
            (map (\<lambda>row. post_pub_date (fst row)) (PostListView_get_queryset s now))
       \<and> PostListView_paginate_by = 10
       \<and> (\<forall>k page. paginate PostListView_paginate_by (PostListView_get_queryset s now) k
             = Inr page \<longrightarrow> length page \<le> 10)"
proof -
  let ?vis = "\<lambda>p. post_is_published p \<and> category__is_published s p \<and> post_pub_date p \<le> now"
  have join: "category__is_published s p
      \<longleftrightarrow> (\<exists>c. category_of s p = Inr (Some c) \<and> category_is_published c)" for p
    by (rule category_join [OF wf_store_categories [OF assms]])
  have m: "mset (map fst (PostListView_get_queryset s now)) = mset (filter ?vis (posts s))"
    unfolding PostListView_get_queryset_def by (rule feed_posts)
  have a: "mset (map fst (PostListView_get_queryset s now))
           = mset (filter (\<lambda>p. post_is_published p
                     \<and> (\<exists>c. category_of s p = Inr (Some c) \<and> category_is_published c)
                     \<and> post_pub_date p \<le> now) (posts s))"
    unfolding m by (simp only: join)
  have "set (map fst (PostListView_get_queryset s now)) = set (filter ?vis (posts s))"
    using m by (metis set_mset_mset)
  then have mem: "p \<in> fst ` set (PostListView_get_queryset s now)
      \<longleftrightarrow> p \<in> set (posts s) \<and> ?vis p" for p
    by auto
  have b: "\<forall>p\<in>set (posts s). p \<in> fst ` set (PostListView_get_queryset s now)
             \<longleftrightarrow> PostDetailView_get_object s now None (post_pk p) = Inr p"
    using anonymous_sees [OF assms] mem by blast
  have c: "\<forall>row\<in>set (PostListView_get_queryset s now). snd row = comment_count s (fst row)"
    unfolding PostListView_get_queryset_def by (blast intro: feed_counts)
  have d: "sorted_wrt (\<lambda>a b. b \<le> a)
            (map (\<lambda>row. post_pub_date (fst row)) (PostListView_get_queryset s now))"
    unfolding PostListView_get_queryset_def by (rule order_by_minus_pub_date_sorted)
  have e: "PostListView_paginate_by = 10"
    by (simp add: PostListView_paginate_by_def POSTS_ON_PAGE_def)
  have f: "\<forall>k page. paginate PostListView_paginate_by (PostListView_get_queryset s now) k
             = Inr page \<longrightarrow> length page \<le> 10"
    using paginate_length e by metis
  from a b c d e f show ?thesis by blast
qed

theorem global_feed_witness:
  "wf_store blog
   \<and> map fst (PostListView_get_queryset blog 500)
       = [mk_post 7 True 200 2 (Some 1), mk_post 1 True 100 1 (Some 1)]
   \<and> PostDetailView_get_object blog 500 None 7 = Inr (mk_post 7 True 200 2 (Some 1))
   \<and> PostListView_paginate_by = 10"
proof -
  have h: "wf_store blog" by code_simp
  have e: "map fst (PostListView_get_queryset blog 500)
       = [mk_post 7 True 200 2 (Some 1), mk_post 1 True 100 1 (Some 1)]"
    by code_simp
  have m: "mk_post 7 True 200 2 (Some 1) \<in> set (posts blog)"
    by code_simp
  from e have i: "mk_post 7 True 200 2 (Some 1) \<in> fst ` set (PostListView_get_queryset blog 500)"
    by (metis list.set_intros(1) set_map)
  from global_feed [OF h, of 500] m i
  have "PostDetailView_get_object blog 500 None (post_pk (mk_post 7 True 200 2 (Some 1)))
      = Inr (mk_post 7 True 200 2 (Some 1))"
    by blast
  moreover have "post_pk (mk_post 7 True 200 2 (Some 1)) = 7" by (simp add: mk_post_def)
  moreover from global_feed [OF h, of 500] have "PostListView_paginate_by = 10" by blast
  ultimately show ?thesis using h e by simp
qed

text \<open>
  Claim C5, the profile feed: for the name of an existing user the feed holds exactly the
  posts of that user, whatever their flags, each with the number of its comments and in
  \<open>pub_date\<close> descending order, and the view shows its first page with that user's
  profile; for a name that no user has, the view is Not-Found.
\<close>

theorem profile_feed:
  assumes "wf_store s"
  shows "(\<forall>u\<in>set (users s).
            mset (map fst (ProfileListView_get_queryset s (username u)))
              = mset (filter (\<lambda>p. post_author p = user_pk u) (posts s))
          \<and> (\<forall>row\<in>set (ProfileListView_get_queryset s (username u)).
                snd row = comment_count s (fst row))
          \<and> sorted_wrt (\<lambda>a b. b \<le> a)
              (map (\<lambda>row. post_pub_date (fst row)) (ProfileListView_get_queryset s (username u)))
          \<and> ProfileListView s (username u) 1
              = Inr (Render ''blog/profile.html''
                  [(''page_obj'',
                    PageV (take 10 (ProfileListView_get_queryset s (username u)))),
                   (''profile'', UserV u)]))
       \<and> (name \<notin> username ` set (users s) \<longrightarrow> ProfileListView s name number = Inl Http404)"
proof (intro conjI ballI impI)
  fix u assume u: "u \<in> set (users s)"
  have j: "author__username s (username u) = (\<lambda>p. post_author p = user_pk u)"
    using author_join [OF wf_store_usernames [OF assms] u] by (simp add: fun_eq_iff)
  show "mset (map fst (ProfileListView_get_queryset s (username u)))
      = mset (filter (\<lambda>p. post_author p = user_pk u) (posts s))"
    unfolding ProfileListView_get_queryset_def j by (rule feed_posts)
  show "snd row = comment_count s (fst row)"
    if "row \<in> set (ProfileListView_get_queryset s (username u))" for row
    using that unfolding ProfileListView_get_queryset_def by (rule feed_counts)
  show "sorted_wrt (\<lambda>a b. b \<le> a)
      (map (\<lambda>row. post_pub_date (fst row)) (ProfileListView_get_queryset s (username u)))"
    unfolding ProfileListView_get_queryset_def by (rule order_by_minus_pub_date_sorted)
  show "ProfileListView s (username u) 1
      = Inr (Render ''blog/profile.html''
          [(''page_obj'', PageV (take 10 (ProfileListView_get_queryset s (username u)))),
           (''profile'', UserV u)])"
    by (simp add: ProfileListView_def POSTS_ON_PAGE_def paginate_first get_user [OF assms u])
next
  assume "name \<notin> username ` set (users s)"
  then have "\<forall>v\<in>set (users s). \<not> username v = name" by auto
  then have g: "get_object_or_404 (\<lambda>v. username v = name) (users s) = Inl Http404"
    by (simp only: get_object_or_404_none)
  show "ProfileListView s name number = Inl Http404"
  proof (cases "paginate POSTS_ON_PAGE (ProfileListView_get_queryset s name) number")
    case (Inl e)
    then have "e = Http404" by (rule paginate_cases)
    with Inl show ?thesis by (simp add: ProfileListView_def)
  next
    case (Inr page)
    with g show ?thesis by (simp add: ProfileListView_def)
  qed
qed

theorem profile_feed_witness:
  "wf_store blog
   \<and> ProfileListView blog ''alice'' 1
       = Inr (Render ''blog/profile.html''
           [(''page_obj'',
             PageV [(mk_post 1 True 100 1 (Some 1), 2), (mk_post 2 False 50 1 (Some 1), 0),
                    (mk_post 3 True 20 1 None, 0), (mk_post 6 False 10 1 None, 0)]),
            (''profile'', UserV alice)])
   \<and> ProfileListView blog ''carol'' 1 = Inl Http404"
proof -
  have h: "wf_store blog" by code_simp
  have a: "alice \<in> set (users blog)" by (simp add: blog_def)
  have n: "''carol'' \<notin> username ` set (users blog)"
    by (simp add: blog_def alice_def bob_def)
  have u: "username alice = ''alice''" by (simp add: alice_def)
  have q: "take 10 (ProfileListView_get_queryset blog ''alice'')
      = [(mk_post 1 True 100 1 (Some 1), 2), (mk_post 2 False 50 1 (Some 1), 0),
         (mk_post 3 True 20 1 None, 0), (mk_post 6 False 10 1 None, 0)]"
    by code_simp
  from profile_feed [OF h, of "''carol''" 1] a n
  have "ProfileListView blog (username alice) 1
       = Inr (Render ''blog/profile.html''
           [(''page_obj'', PageV (take 10 (ProfileListView_get_queryset blog (username alice)))),
            (''profile'', UserV alice)])
     \<and> ProfileListView blog ''carol'' 1 = Inl Http404"
    by blast
  then show ?thesis using h unfolding u q by simp
qed

text \<open>
  Claim C6, the category feed: Not-Found when no category has the slug or the one that
  has it is not published; otherwise exactly the posts of that category that are
  published and not dated after now, each with the number of its comments, in
  \<open>pub_date\<close> descending order.
\<close>

theorem category_feed:
  assumes "wf_store s"
  shows "((\<forall>c\<in>set (categories s). category_slug c = slug \<longrightarrow> \<not> category_is_published c) \<longrightarrow>
            CategoryPostListView_get_queryset s now slug = Inl Http404
          \<and> CategoryPostListView s now slug number = Inl Http404)
       \<and> (\<forall>c\<in>set (categories s). category_slug c = slug \<and> category_is_published c \<longrightarrow>
            (\<exists>qs. CategoryPostListView_get_queryset s now slug = Inr qs
               \<and> mset (map fst qs)
                   = mset (filter (\<lambda>p. post_is_published p
                                \<and> post_category p = Some (category_pk c)
                                \<and> post_pub_date p \<le> now) (posts s))
               \<and> (\<forall>row\<in>set qs. snd row = comment_count s (fst row))
               \<and> sorted_wrt (\<lambda>a b. b \<le> a) (map (\<lambda>row. post_pub_date (fst row)) qs)
               \<and> CategoryPostListView s now slug 1
                   = Inr (Render ''blog/category.html''
                       [(''page_obj'', PageV (take 10 qs)), (''category'', CategoryV c)])))"
proof (intro conjI ballI impI)
  assume "\<forall>c\<in>set (categories s). category_slug c = slug \<longrightarrow> \<not> category_is_published c"
  then have "\<forall>c\<in>set (categories s). \<not> (category_slug c = slug \<and> category_is_published c)"
    by blast
  then have g: "get_object_or_404 (\<lambda>c. category_slug c = slug \<and> category_is_published c)
      (categories s) = Inl Http404"
    by (simp only: get_object_or_404_none)
  then show q: "CategoryPostListView_get_queryset s now slug = Inl Http404"
    by (simp add: CategoryPostListView_get_queryset_def)
  then show "CategoryPostListView s now slug number = Inl Http404"
    by (simp add: CategoryPostListView_def)
next
  fix c assume c: "c \<in> set (categories s)" "category_slug c = slug \<and> category_is_published c"
  let ?qs = "order_by_minus_pub_date (annotate s
      (filter (\<lambda>p. post_is_published p \<and> post_category p = Some (category_pk c)
                 \<and> post_pub_date p \<le> now) (posts s)))"
  have g: "get_object_or_404 (\<lambda>d. category_slug d = slug \<and> category_is_published d)
      (categories s) = Inr c"
    using get_category_published [OF assms c(1)] c(2) by simp
  have q: "CategoryPostListView_get_queryset s now slug = Inr ?qs"
    by (simp add: CategoryPostListView_get_queryset_def g)
  have o: "objects_get (\<lambda>d. category_slug d = slug) (categories s) = Inr c"
    using objects_get_key [OF wf_store_slugs [OF assms] c(1)] c(2) by simp
  have v: "CategoryPostListView s now slug 1
      = Inr (Render ''blog/category.html''
          [(''page_obj'', PageV (take 10 ?qs)), (''category'', CategoryV c)])"
    by (simp add: CategoryPostListView_def q POSTS_ON_PAGE_def paginate_first o)
  have m: "mset (map fst ?qs)
      = mset (filter (\<lambda>p. post_is_published p \<and> post_category p = Some (category_pk c)
                 \<and> post_pub_date p \<le> now) (posts s))"
    by (rule feed_posts)
  have n: "\<forall>row\<in>set ?qs. snd row = comment_count s (fst row)"
    by (blast intro: feed_counts)
  have d: "sorted_wrt (\<lambda>a b. b \<le> a) (map (\<lambda>row. post_pub_date (fst row)) ?qs)"
    by (rule order_by_minus_pub_date_sorted)
  from q m n d v
  show "\<exists>qs. CategoryPostListView_get_queryset s now slug = Inr qs
               \<and> mset (map fst qs)
                   = mset (filter (\<lambda>p. post_is_published p
                                \<and> post_category p = Some (category_pk c)
                                \<and> post_pub_date p \<le> now) (posts s))
               \<and> (\<forall>row\<in>set qs. snd row = comment_count s (fst row))
               \<and> sorted_wrt (\<lambda>a b. b \<le> a) (map (\<lambda>row. post_pub_date (fst row)) qs)
               \<and> CategoryPostListView s now slug 1
                   = Inr (Render ''blog/category.html''
                       [(''page_obj'', PageV (take 10 qs)), (''category'', CategoryV c)])"
    by blast
qed

theorem category_feed_witness:
  "wf_store blog
   \<and> CategoryPostListView blog 500 ''drafts'' 1 = Inl Http404
   \<and> CategoryPostListView blog 500 ''nowhere'' 1 = Inl Http404
   \<and> CategoryPostListView blog 500 ''travel'' 1
       = Inr (Render ''blog/category.html''
           [(''page_obj'',
             PageV [(mk_post 7 True 200 2 (Some 1), 1), (mk_post 1 True 100 1 (Some 1), 2)]),
            (''category'', CategoryV travel)])"
proof -
  have h: "wf_store blog" by code_simp
  have d: "\<forall>c\<in>set (categories blog). category_slug c = ''drafts'' \<longrightarrow> \<not> category_is_published c"
    by (simp add: blog_def travel_def drafts_def)
  have n: "\<forall>c\<in>set (categories blog). category_slug c = ''nowhere'' \<longrightarrow> \<not> category_is_published c"
    by (simp add: blog_def travel_def drafts_def)
  have t: "travel \<in> set (categories blog)"
    "category_slug travel = ''travel'' \<and> category_is_published travel"
    by (simp_all add: blog_def travel_def)
  have q: "CategoryPostListView_get_queryset blog 500 ''travel''
      = Inr [(mk_post 7 True 200 2 (Some 1), 1), (mk_post 1 True 100 1 (Some 1), 2)]"
    by code_simp
  from category_feed [OF h, of "''drafts''" 500 1] d
  have 1: "CategoryPostListView blog 500 ''drafts'' 1 = Inl Http404" by blast
  from category_feed [OF h, of "''nowhere''" 500 1] n
  have 2: "CategoryPostListView blog 500 ''nowhere'' 1 = Inl Http404" by blast
  from category_feed [OF h, of "''travel''" 500 1] t
  obtain qs where "CategoryPostListView_get_queryset blog 500 ''travel'' = Inr qs"
    and "CategoryPostListView blog 500 ''travel'' 1
       = Inr (Render ''blog/category.html''
           [(''page_obj'', PageV (take 10 qs)), (''category'', CategoryV travel)])"
    by blast
  with q have 3: "CategoryPostListView blog 500 ''travel'' 1
       = Inr (Render ''blog/category.html''
           [(''page_obj'',
             PageV [(mk_post 7 True 200 2 (Some 1), 1), (mk_post 1 True 100 1 (Some 1), 2)]),
            (''category'', CategoryV travel)])"
    by simp
  from h 1 2 3 show ?thesis by blast
qed

section \<open>Ownership\<close>

text \<open>
  Claim C4, editing or deleting what belongs to someone else: a logged-in user who is not
  the author of an existing post or comment is redirected to the detail view (for a
  comment, that of its post), the store stays as it was, and no error is raised.
\<close>

theorem non_author_is_redirected:
  assumes "wf_store s" and "request_user r = Some u"
  shows "(\<forall>p\<in>set (posts s). post_author p \<noteq> user_pk u \<longrightarrow>
            PostUpdateView validate r (post_pk p) s = Inr (Redirect (Post_detail (post_pk p)), s)
          \<and> PostDeleteView r (post_pk p) s = Inr (Redirect (Post_detail (post_pk p)), s))
       \<and> (\<forall>c\<in>set (comments s). comment_author c \<noteq> user_pk u \<longrightarrow>
            edit_comment validate' r (comment_post c) (comment_pk c) s
              = Inr (Redirect (Post_detail (comment_post c)), s)
          \<and> delete_comment r (comment_post c) (comment_pk c) s
              = Inr (Redirect (Post_detail (comment_post c)), s))"
proof (intro conjI ballI impI)
  fix p assume p: "p \<in> set (posts s)" "post_author p \<noteq> user_pk u"
  have g: "get_object_or_404 (\<lambda>q. post_pk q = post_pk p) (posts s) = Inr p"
    using assms(1) p(1) by (rule get_post)
  from p(2) have n: "\<not> is_user (post_author p) (Some u)"
    by (simp add: is_user_def)
  show "PostUpdateView validate r (post_pk p) s = Inr (Redirect (Post_detail (post_pk p)), s)"
    by (simp add: PostUpdateView_def login_required_def assms(2)
        DispatchPostMixin_dispatch_def g n)
  show "PostDeleteView r (post_pk p) s = Inr (Redirect (Post_detail (post_pk p)), s)"
    by (simp add: PostDeleteView_def login_required_def assms(2)
        DispatchPostMixin_dispatch_def g n)
next
  fix c assume c: "c \<in> set (comments s)" "comment_author c \<noteq> user_pk u"
  have g: "get_object_or_404
      (\<lambda>d. comment_pk d = comment_pk c \<and> comment_post d = comment_post c) (comments s) = Inr c"
    using assms(1) c(1) by (rule get_comment)
  from c(2) have n: "user_pk u \<noteq> comment_author c" by simp
  show "edit_comment validate' r (comment_post c) (comment_pk c) s
      = Inr (Redirect (Post_detail (comment_post c)), s)"
    by (simp add: edit_comment_def login_required_def assms(2) g n)
  show "delete_comment r (comment_post c) (comment_pk c) s
      = Inr (Redirect (Post_detail (comment_post c)), s)"
    by (simp add: delete_comment_def login_required_def assms(2) g n)
qed

theorem non_author_is_redirected_witness:
  "wf_store blog
   \<and> PostUpdateView required_title (mk_request (Some bob) POST [(''title'', ''mine'')]) 1 blog
       = Inr (Redirect (Post_detail 1), blog)
   \<and> PostDeleteView (mk_request (Some bob) POST [(''title'', ''mine'')]) 1 blog
       = Inr (Redirect (Post_detail 1), blog)
   \<and> edit_comment required_text (mk_request (Some bob) POST [(''title'', ''mine'')]) 1 2 blog
       = Inr (Redirect (Post_detail 1), blog)
   \<and> delete_comment (mk_request (Some bob) POST [(''title'', ''mine'')]) 1 2 blog
       = Inr (Redirect (Post_detail 1), blog)"
proof -
  let ?r = "mk_request (Some bob) POST [(''title'', ''mine'')]"
  have h: "wf_store blog" by code_simp
  have u: "request_user ?r = Some bob" by (simp add: mk_request_def)
  have p: "mk_post 1 True 100 1 (Some 1) \<in> set (posts blog)" by (simp add: blog_def)
  have c: "mk_comment 2 1 110 1 \<in> set (comments blog)" by (simp add: blog_def)
  have pa: "post_author (mk_post 1 True 100 1 (Some 1)) \<noteq> user_pk bob"
    by (simp add: mk_post_def bob_def)
  have ca: "comment_author (mk_comment 2 1 110 1) \<noteq> user_pk bob"
    by (simp add: mk_comment_def bob_def)
  have pk: "post_pk (mk_post 1 True 100 1 (Some 1)) = 1" by (simp add: mk_post_def)
  have ck: "comment_pk (mk_comment 2 1 110 1) = 2" "comment_post (mk_comment 2 1 110 1) = 1"
    by (simp_all add: mk_comment_def)
  from non_author_is_redirected [OF h u, of required_title required_text] p pa c ca
  have "PostUpdateView required_title ?r (post_pk (mk_post 1 True 100 1 (Some 1))) blog
       = Inr (Redirect (Post_detail (post_pk (mk_post 1 True 100 1 (Some 1)))), blog)
   \<and> PostDeleteView ?r (post_pk (mk_post 1 True 100 1 (Some 1))) blog
       = Inr (Redirect (Post_detail (post_pk (mk_post 1 True 100 1 (Some 1)))), blog)
   \<and> edit_comment required_text ?r (comment_post (mk_comment 2 1 110 1))
        (comment_pk (mk_comment 2 1 110 1)) blog
       = Inr (Redirect (Post_detail (comment_post (mk_comment 2 1 110 1))), blog)
   \<and> delete_comment ?r (comment_post (mk_comment 2 1 110 1))
        (comment_pk (mk_comment 2 1 110 1)) blog
       = Inr (Redirect (Post_detail (comment_post (mk_comment 2 1 110 1))), blog)"
    by blast
  then show ?thesis using h unfolding pk ck by simp
qed

text \<open>
  Claim C7, as amended: for a logged-in user and every pair of a post id and a comment id,
  editing and deleting the comment are Not-Found iff no comment has the comment id, or
  the comment that has it belongs to another post.
\<close>

theorem comment_not_found:
  assumes "wf_store s" and "request_user r = Some u"
  shows "(edit_comment validate r post_id comment_id s = Inl Http404
            \<longleftrightarrow> comment_id \<notin> comment_pk ` set (comments s)
                \<or> (\<exists>c\<in>set (comments s). comment_pk c = comment_id \<and> comment_post c \<noteq> post_id))
       \<and> (delete_comment r post_id comment_id s = Inl Http404
            \<longleftrightarrow> comment_id \<notin> comment_pk ` set (comments s)
                \<or> (\<exists>c\<in>set (comments s). comment_pk c = comment_id \<and> comment_post c \<noteq> post_id))"
  unfolding edit_comment_404 [OF assms(2)] delete_comment_404 [OF assms(2)]
    get_object_or_404_none comment_lookup_none [OF wf_store_comments [OF assms(1)]]
  by simp

theorem comment_not_found_witness:
  "wf_store blog
   \<and> edit_comment required_text (mk_request (Some bob) GET []) 1 99 blog = Inl Http404
   \<and> delete_comment (mk_request (Some bob) GET []) 7 1 blog = Inl Http404
   \<and> edit_comment required_text (mk_request (Some bob) GET []) 1 1 blog \<noteq> Inl Http404"
proof -
  let ?r = "mk_request (Some bob) GET []"
  have h: "wf_store blog" by code_simp
  have u: "request_user ?r = Some bob" by (simp add: mk_request_def)
  have a: "99 \<notin> comment_pk ` set (comments blog)"
    by (simp add: blog_def mk_comment_def)
  have b: "\<exists>c\<in>set (comments blog). comment_pk c = 1 \<and> comment_post c \<noteq> 7"
    by (simp add: blog_def mk_comment_def)
  have c: "\<not> (1 \<notin> comment_pk ` set (comments blog)
      \<or> (\<exists>c\<in>set (comments blog). comment_pk c = 1 \<and> comment_post c \<noteq> 1))"
    by (simp add: blog_def mk_comment_def)
  from comment_not_found [OF h u, of required_text 1 99] a
  have 1: "edit_comment required_text ?r 1 99 blog = Inl Http404" by blast
  from comment_not_found [OF h u, of required_text 7 1] b
  have 2: "delete_comment ?r 7 1 blog = Inl Http404" by blast
  from comment_not_found [OF h u, of required_text 1 1] c
  have 3: "edit_comment required_text ?r 1 1 blog \<noteq> Inl Http404" by blast
  from h 1 2 3 show ?thesis by blast
qed

text \<open>
  Without the login the claim fails: both views send an anonymous visitor to the login
  page before they look the comment up, so a comment id that no comment has is not
  answered with Not-Found.
\<close>

theorem comment_not_found_counterexample:
  "99 \<notin> comment_pk ` set (comments blog)
   \<and> edit_comment required_text (mk_request None POST [(''text'', ''x'')]) 1 99 blog
       = Inr (Redirect Login, blog)
   \<and> delete_comment (mk_request None POST [(''text'', ''x'')]) 1 99 blog
       = Inr (Redirect Login, blog)"
  by (simp add: edit_comment_def delete_comment_def login_required_def mk_request_def
      blog_def mk_comment_def)

section \<open>Creating comments and posts\<close>




text \<open>
  Claim C10, the author of what is created: whatever the create views add to the store
  has the requesting user as its author (and, for a comment, the post of the URL as its
  post); an \<open>author\<close> entry in the submitted data changes nothing in what the post form
  reads, and the comment form reads nothing but \<open>text\<close>.
\<close>

theorem author_is_requester:
  "(PostCreateView validate now r s = Inr (resp, s') \<longrightarrow>
      (\<exists>new. posts s' = posts s @ new
         \<and> (\<forall>p\<in>set new. is_user (post_author p) (request_user r))))
 \<and> (CommentCreateView validate' now r post_id s = Inr (resp', s'') \<longrightarrow>
      (\<exists>new. comments s'' = comments s @ new
         \<and> (\<forall>c\<in>set new. is_user (comment_author c) (request_user r) \<and> comment_post c = post_id)))
 \<and> (add_comment validate' now r post_id s = Inr (resp'', s''') \<longrightarrow>
      (\<exists>new. comments s''' = comments s @ new
         \<and> (\<forall>c\<in>set new. is_user (comment_author c) (request_user r) \<and> comment_post c = post_id)))
 \<and> PostForm_clean validate ((''author'', v) # data) = PostForm_clean validate data
 \<and> (k \<noteq> ''text'' \<longrightarrow>
      CommentForm_clean validate' ((k, v) # data) = CommentForm_clean validate' data)"
proof (intro conjI impI)
  assume "PostCreateView validate now r s = Inr (resp, s')"
  then show "\<exists>new. posts s' = posts s @ new
         \<and> (\<forall>p\<in>set new. is_user (post_author p) (request_user r))"
    by (auto simp: PostCreateView_def login_required_def insert_post_def is_user_def
        split: option.splits http_method.splits sum.splits)
next
  assume "CommentCreateView validate' now r post_id s = Inr (resp', s'')"
  then show "\<exists>new. comments s'' = comments s @ new
         \<and> (\<forall>c\<in>set new. is_user (comment_author c) (request_user r) \<and> comment_post c = post_id)"
    by (auto simp: CommentCreateView_def login_required_def insert_comment_def is_user_def
        split: option.splits http_method.splits sum.splits dest: get_object_or_404_Inr)
next
  assume "add_comment validate' now r post_id s = Inr (resp'', s''')"
  then show "\<exists>new. comments s''' = comments s @ new
         \<and> (\<forall>c\<in>set new. is_user (comment_author c) (request_user r) \<and> comment_post c = post_id)"
    by (auto simp: add_comment_def login_required_def insert_comment_def is_user_def
        split: option.splits http_method.splits sum.splits dest: get_object_or_404_Inr)
next
  show "PostForm_clean validate ((''author'', v) # data) = PostForm_clean validate data"
    by (simp add: PostForm_clean_def own_data_def PostForm_fields_def PostForm_exclude_def
        Post_editable_fields_def)
next
  assume "k \<noteq> ''text''"
  then show "CommentForm_clean validate' ((k, v) # data) = CommentForm_clean validate' data"
    by (simp add: CommentForm_clean_def own_data_def CommentForm_fields_def)
qed

theorem author_is_requester_witness:
  "PostCreateView required_title 500
      (mk_request (Some alice) POST [(''title'', ''Hello''), (''author'', ''2'')]) blog
     = Inr (Redirect (Profile ''alice''), insert_post blog 500 1 hello)
   \<and> post_author (last (posts (insert_post blog 500 1 hello))) = user_pk alice"
proof -
  let ?r = "mk_request (Some alice) POST [(''title'', ''Hello''), (''author'', ''2'')]"
  have v: "PostForm_clean required_title [(''title'', ''Hello''), (''author'', ''2'')] = Inr hello"
    by (simp add: PostForm_clean_def own_data_def PostForm_fields_def PostForm_exclude_def
        Post_editable_fields_def required_title_def hello_def)
  have h: "PostCreateView required_title 500 ?r blog
     = Inr (Redirect (Profile ''alice''), insert_post blog 500 1 hello)"
    by (simp add: PostCreateView_def login_required_def mk_request_def v alice_def)
  have t: "\<exists>new. posts (insert_post blog 500 1 hello) = posts blog @ new
      \<and> (\<forall>p\<in>set new. is_user (post_author p) (request_user ?r))"
    using author_is_requester [THEN conjunct1, THEN mp, OF h] .
  then obtain new where n: "posts (insert_post blog 500 1 hello) = posts blog @ new"
    and a: "\<forall>p\<in>set new. is_user (post_author p) (request_user ?r)"
    by blast
  have "\<exists>x. posts (insert_post blog 500 1 hello) = posts blog @ [x]"
    by (simp add: insert_post_def)
  then obtain x where x: "posts (insert_post blog 500 1 hello) = posts blog @ [x]" by blast
  from n x have "new = [x]" by simp
  with a have "is_user (post_author x) (request_user ?r)" by simp
  then have "post_author x = user_pk alice" by (simp add: is_user_def mk_request_def)
  moreover from x have "last (posts (insert_post blog 500 1 hello)) = x" by simp
  ultimately show ?thesis using h by simp
qed

end
